theory Spec2Isabelle
  imports Complex_Main "HOL-Library.Word"
begin

section \<open>Propulsion test bench: the sketch as a state transformer\<close>

text \<open>
  The Arduino sketch keeps all of its state in global variables and talks to four
  collaborators: the clock (\<open>millis\<close>, \<open>delay\<close>), the digital pins, the HX711 load-cell
  amplifier and the SD card, plus the serial console. Every function of the sketch is
  embedded as a function from the state record to the state record. What a
  collaborator returns (a clock reading, a sensor reading, the line typed by the
  operator, whether a file could be opened) is an argument of the model; what the
  sketch does to a collaborator (a pin write, a delay, a console line, a row printed
  to the data file) is appended, in program order, to the \<open>trace\<close> field.

  Types. \<open>unsigned long\<close> is 32 bits wide on every Arduino board and is a
  \<open>32 word\<close>: subtraction wraps and comparison is unsigned, as in the sketch.
  \<open>float\<close> is idealised as \<open>real\<close>: arithmetic is exact, and sensor readings are
  finite numbers. The one place where the C++ would leave the reals, a division by
  the sample counter when that counter is zero, is written out: the running average
  is a \<open>real option\<close>, and \<open>None\<close> stands for the non-finite float (infinity or NaN)
  that such a division yields and that every later update keeps non-finite.
\<close>

type_synonym ulong = "32 word"

subsection \<open>What the sketch prints and does\<close>

datatype msg =
    MsgBanner
  | MsgHxConnecting
  | MsgHxFailed
  | MsgHxInitialized
  | MsgSdFailed
  | MsgSdInitialized
  | MsgFileCreated string
  | MsgFileError
  | MsgSystemReady
  | MsgSequenceInitiated
  | MsgHxNotInit
  | MsgRemoveWeight
  | MsgTaring
  | MsgTareDone
  | MsgPlaceWeight
  | MsgInvalidWeight
  | MsgMeasuring
  | MsgCalibrationDone real real real
  | MsgCountdownStart
  | MsgT int
  | MsgIgnition
  | MsgSdWarning
  | MsgAcqStarted
  | MsgStatus real real real ulong
  | MsgSafetyTimeout
  | MsgBurnComplete real real real "real option" ulong string
  | MsgResetHint

datatype event =
    DigitalWrite bool
  | Delay nat
  | Say msg
  | HxTare
  | HxSetScale real
  | SdHeader string
  | SdOpen string
  | SdPrintRow ulong real real "real option" real real
  | SdFlush
  | SdClose

subsection \<open>The globals, the static locals and the hardware they drive\<close>

record state =
  filename :: string
  known_weight :: real
  burnStartTime :: ulong
  burnEndTime :: ulong
  thrust :: real
  impulse :: real
  peakthrust :: real
  avgthrust :: "real option"
  lastsampletime :: ulong
  burntime :: real
  previoustime :: ulong
  countdownTime :: int
  countdownstate :: bool
  hx_ini :: bool
  testInProgress :: bool
  samplecount :: ulong
  sdOpenForWrite :: bool
  lastSdFlush :: ulong
  lastPrint :: ulong
  lowThrustStart :: ulong
  e_match_pin :: bool
  hx_scale :: real
  sd_files :: "string list"
  trace :: "event list"

text \<open>
  \<open>lastPrint\<close> and \<open>lowThrustStart\<close> are the \<open>static\<close> locals of \<open>acquireData\<close> and
  \<open>checkBurnComplete\<close>. \<open>e_match_pin\<close> is the level of output D9 (\<open>True\<close> is HIGH, the
  MOSFET conducting; at power-on the pin is not driven yet, which counts as low),
  \<open>hx_scale\<close> the scale factor held by the HX711 driver, \<open>sd_files\<close> the names
  present on the card. \<open>countdownTime\<close> is a C \<open>int\<close>; it only ever moves
  between 15 and 0, so no width is attached to it.
\<close>

definition power_on :: "string list \<Rightarrow> state" where
  "power_on fs =
     \<lparr> filename = [], known_weight = 0, burnStartTime = 0, burnEndTime = 0,
       thrust = 0, impulse = 0, peakthrust = 0, avgthrust = Some 0,
       lastsampletime = 0, burntime = 0, previoustime = 0, countdownTime = 15,
       countdownstate = False, hx_ini = False, testInProgress = False,
       samplecount = 0, sdOpenForWrite = False, lastSdFlush = 0, lastPrint = 0,
       lowThrustStart = 0, e_match_pin = False, hx_scale = 1, sd_files = fs,
       trace = [] \<rparr>"

subsection \<open>Primitive effects\<close>

definition emit :: "event \<Rightarrow> state \<Rightarrow> state" where
  "emit e s = s\<lparr>trace := trace s @ [e]\<rparr>"

definition say :: "msg \<Rightarrow> state \<Rightarrow> state" where
  "say m s = emit (Say m) s"

definition delay :: "nat \<Rightarrow> state \<Rightarrow> state" where
  "delay ms s = emit (Delay ms) s"

definition digitalWrite :: "bool \<Rightarrow> state \<Rightarrow> state" where
  "digitalWrite v s = (emit (DigitalWrite v) s)\<lparr>e_match_pin := v\<rparr>"

text \<open>
  \<open>while (!Serial.available()) { delay(10); }\<close>: the number of polls before the
  operator's line arrives is an input. An operator who never answers leaves the
  sketch inside this loop, with every output as it was.
\<close>

definition waitSerial :: "nat \<Rightarrow> state \<Rightarrow> state" where
  "waitSerial polls s = s\<lparr>trace := trace s @ replicate polls (Delay 10)\<rparr>"

subsection \<open>File name selection\<close>

text \<open>
  \<open>String(i)\<close> for a non-negative \<open>int\<close>: the decimal digits, no padding. A digit
  is always below 10, so the lookup stays in range.
\<close>

definition digit_char :: "nat \<Rightarrow> char" where
  "digit_char d = ''0123456789'' ! d"

fun String_of :: "nat \<Rightarrow> string" where
  "String_of n = (if n < 10 then [digit_char n]
                  else String_of (n div 10) @ [digit_char (n mod 10)])"

declare String_of.simps [simp del]

definition plt_name :: "nat \<Rightarrow> string" where
  "plt_name i = String_of i @ ''_PLT.csv''"

text \<open>
  The loop counter \<open>i\<close> is a C \<open>int\<close>. Incrementing it past \<open>INT_MAX\<close> is undefined
  behaviour; the model stops with \<open>IntOverflow\<close> there. The bound is that of the
  16-bit \<open>int\<close> of the AVR boards, the smallest an Arduino has.
\<close>

datatype halt = HxInitFailed | SdInitFailed | IntOverflow

definition INT_MAX :: nat where
  "INT_MAX = 32767"

function probe :: "string list \<Rightarrow> nat \<Rightarrow> halt + string" where
  "probe fs i =
     (if INT_MAX \<le> i then Inl IntOverflow
      else if plt_name i \<in> set fs then probe fs (i + 1)
      else Inr (plt_name i))"
  by pat_completeness auto
termination
  by (relation "measure (\<lambda>(fs, i). INT_MAX - i)") auto

declare probe.simps [simp del]

text \<open>
  \<open>createNewSDfile\<close>: \<open>do { filename = String(i) + "_PLT.csv"; i++; } while
  (SD.exists(filename))\<close>, then the file is created with its header line and closed.
  \<open>created\<close> tells whether \<open>SD.open\<close> succeeded. A function of \<open>setup()\<close> that does
  not return gives \<open>Inl\<close>: why, and the state in which the sketch stays for good.
\<close>

definition createNewSDfile :: "bool \<Rightarrow> state \<Rightarrow> (halt \<times> state) + state" where
  "createNewSDfile created s =
     (case probe (sd_files s) 0 of
        Inl h \<Rightarrow> Inl (h, s)
      | Inr fn \<Rightarrow>
          let s1 = s\<lparr>filename := fn\<rparr>
          in if created
             then Inr (say (MsgFileCreated fn)
                        (emit (SdHeader fn) (s1\<lparr>sd_files := fn # sd_files s1\<rparr>)))
             else Inr (say MsgFileError s1))"

subsection \<open>The sketch's \<open>setup()\<close>\<close>

record setup_in =
  u_serial_polls :: nat
  u_hx_start :: ulong
  u_hx_polls :: "ulong list"
  u_sd_begin :: bool
  u_sd_create :: bool

text \<open>
  \<open>initializeHX711\<close> polls \<open>is_ready\<close>; \<open>u_hx_polls\<close> holds the clock reading taken
  after each poll that found the amplifier not ready, and the poll after the last of
  them finds it ready. A reading more than 5000 ms after the start parks the sketch
  in \<open>while (1)\<close> for good.
\<close>

fun hx_wait :: "ulong \<Rightarrow> ulong list \<Rightarrow> state \<Rightarrow> (halt \<times> state) + state" where
  "hx_wait startTime [] s = Inr s"
| "hx_wait startTime (m # ms) s =
     (let s1 = delay 500 (say MsgHxConnecting s)
      in if m - startTime > 5000 then Inl (HxInitFailed, say MsgHxFailed s1)
         else hx_wait startTime ms s1)"

definition initializeHX711 :: "setup_in \<Rightarrow> state \<Rightarrow> (halt \<times> state) + state" where
  "initializeHX711 u s =
     (case hx_wait (u_hx_start u) (u_hx_polls u) (delay 500 s) of
        Inl h \<Rightarrow> Inl h
      | Inr s1 \<Rightarrow> Inr ((say MsgHxInitialized s1)\<lparr>hx_ini := True\<rparr>))"

definition initializeSD :: "setup_in \<Rightarrow> state \<Rightarrow> (halt \<times> state) + state" where
  "initializeSD u s =
     (if \<not> u_sd_begin u then Inl (SdInitFailed, say MsgSdFailed s)
      else createNewSDfile (u_sd_create u) (say MsgSdInitialized s))"

text \<open>\<open>setup_sketch\<close> is \<open>setup()\<close>; the plain name is a keyword of Isabelle.\<close>

definition setup_sketch :: "setup_in \<Rightarrow> state \<Rightarrow> (halt \<times> state) + state" where
  "setup_sketch u s =
     (let s1 = s\<lparr>trace := trace s @ replicate (u_serial_polls u) (Delay 1)\<rparr>;
          s2 = say MsgBanner s1;
          s3 = digitalWrite False s2
      in case initializeHX711 u s3 of
           Inl h \<Rightarrow> Inl h
         | Inr s4 \<Rightarrow>
             (case initializeSD u s4 of
                Inl h \<Rightarrow> Inl h
              | Inr s5 \<Rightarrow> Inr (say MsgSystemReady s5)))"

subsection \<open>What one pass of \<open>loop()\<close> reads\<close>

text \<open>
  Each field is the value returned by one call of a collaborator in one pass of
  \<open>loop()\<close>, in the order of the calls. A field is read only if the pass makes the
  call.
\<close>

record inputs =
  i_switch1 :: bool
  i_switch2 :: bool
  i_enter_polls :: nat
  i_weight_polls :: nat
  i_weight :: real
  i_rawReading :: real
  i_measured :: real
  i_t_start :: ulong
  i_t_count :: ulong
  i_t_count2 :: ulong
  i_t_ignite :: ulong
  i_sd_open :: bool
  i_now :: ulong
  i_mass :: real
  i_t_flush :: ulong
  i_t_flush2 :: ulong
  i_t_print :: ulong
  i_t_print2 :: ulong
  i_t_low :: ulong
  i_t_end :: ulong

text \<open>
  \<open>i_switch1\<close>, \<open>i_switch2\<close>: the calibration switch reads LOW, before and after the
  50 ms debounce. \<open>i_weight\<close>: \<open>s.toFloat()\<close> of the line the operator typed (0 for
  text that is no number). \<open>i_rawReading\<close>, \<open>i_measured\<close>, \<open>i_mass\<close>: what
  \<open>loadcell.get_units\<close> returned. \<open>i_sd_open\<close>: \<open>SD.open\<close> gave a file. The others
  are readings of \<open>millis()\<close>.
\<close>

subsection \<open>Calibration and countdown\<close>

definition hxCalibrate :: "inputs \<Rightarrow> state \<Rightarrow> state" where
  "hxCalibrate i s =
     (if \<not> hx_ini s then say MsgHxNotInit s
      else
        let s1 = say MsgRemoveWeight s;
            s2 = waitSerial (i_enter_polls i) s1;
            s3 = say MsgTaring s2;
            s4 = emit HxTare s3;
            s5 = delay 200 s4;
            s6 = say MsgTareDone s5;
            s7 = say MsgPlaceWeight s6;
            s8 = waitSerial (i_weight_polls i) s7;
            s9 = s8\<lparr>known_weight := i_weight i\<rparr>
        in if known_weight s9 \<le> 0 then say MsgInvalidWeight s9
           else
             let s10 = delay 500 (say MsgMeasuring s9);
                 calFactor = i_rawReading i / known_weight s10;
                 s11 = (emit (HxSetScale calFactor) s10)\<lparr>hx_scale := calFactor\<rparr>;
                 s12 = delay 200 s11
             in say (MsgCalibrationDone (known_weight s12) (i_measured i) calFactor) s12)"

definition startCountdown :: "inputs \<Rightarrow> state \<Rightarrow> state" where
  "startCountdown i s =
     say MsgCountdownStart
       (s\<lparr>previoustime := i_t_start i, countdownstate := True, countdownTime := 15\<rparr>)"

subsection \<open>Ignition\<close>

text \<open>
  \<open>SD.open(filename, FILE_WRITE)\<close> creates the file when the card does not have it.
\<close>

definition igniteMotor :: "inputs \<Rightarrow> state \<Rightarrow> state" where
  "igniteMotor i s =
     (let s1 = say MsgIgnition s;
          s2 = digitalWrite True s1;
          s3 = delay 2000 s2;
          s4 = digitalWrite False s3;
          s5 = s4\<lparr>testInProgress := True, burnStartTime := i_t_ignite i,
                  lastsampletime := i_t_ignite i, samplecount := 0, impulse := 0,
                  peakthrust := 0, avgthrust := Some 0\<rparr>;
          s6 = (if \<not> i_sd_open i
                then (say MsgSdWarning s5)\<lparr>sdOpenForWrite := False\<rparr>
                else (emit (SdOpen (filename s5))
                        (s5\<lparr>sd_files := (if filename s5 \<in> set (sd_files s5)
                                           then sd_files s5
                                           else filename s5 # sd_files s5)\<rparr>))
                     \<lparr>sdOpenForWrite := True\<rparr>)
      in say MsgAcqStarted s6)"

definition countDown :: "inputs \<Rightarrow> state \<Rightarrow> state" where
  "countDown i s =
     (if countdownstate s then
        (if i_t_count i - previoustime s \<ge> 1000 then
           (let s1 = s\<lparr>previoustime := i_t_count2 i,
                       countdownTime := countdownTime s - 1\<rparr>;
                s2 = say (MsgT (countdownTime s1)) s1
            in if countdownTime s2 \<le> 0
               then igniteMotor i (s2\<lparr>countdownstate := False\<rparr>)
               else s2)
         else s)
      else s)"

subsection \<open>Acquisition\<close>

text \<open>
  \<open>fdiv_count x n\<close> is \<open>x / (float)n\<close>: \<open>None\<close>, a non-finite float, when \<open>n\<close> is zero.
\<close>

definition fdiv_count :: "real \<Rightarrow> ulong \<Rightarrow> real option" where
  "fdiv_count x n = (if n = 0 then None else Some (x / real (unat n)))"

text \<open>
  The assignments of \<open>acquireData\<close> in their order, each new value named once:
  \<open>thrust'\<close> is \<open>thrust\<close> after \<open>thrust = mass_kg * 9.80665f\<close>, \<open>impulse'\<close> is \<open>impulse\<close>
  after \<open>impulse += thrust * dt\<close>, \<open>count'\<close> is \<open>samplecount\<close> after \<open>samplecount++\<close>,
  and so on; \<open>s1\<close> is the state once all of them are stored.
\<close>

definition acquireData :: "inputs \<Rightarrow> state \<Rightarrow> state" where
  "acquireData i s =
     (let now = i_now i;
          dt = real (unat (now - lastsampletime s)) / 1000
      in if dt \<le> 0 then s
         else
           let mass_kg = (if i_mass i < 0 then 0 else i_mass i);
               thrust' = mass_kg * 9.80665;
               impulse' = impulse s + thrust' * dt;
               peak' = (if thrust' > peakthrust s then thrust' else peakthrust s);
               count' = samplecount s + 1;
               avg' = (case avgthrust s of
                         None \<Rightarrow> None
                       | Some avg \<Rightarrow>
                           (case fdiv_count (thrust' - avg) count' of
                              None \<Rightarrow> None
                            | Some q \<Rightarrow> Some (avg + q)));
               burntime' = real (unat (now - burnStartTime s)) / 1000;
               s1 = s\<lparr>thrust := thrust', impulse := impulse', peakthrust := peak',
                      samplecount := count', avgthrust := avg', lastsampletime := now,
                      burntime := burntime'\<rparr>;
               s2 = (if sdOpenForWrite s1 then
                       (let s' = emit (SdPrintRow (now - burnStartTime s1) thrust'
                                        impulse' avg' peak' burntime') s1
                        in if i_t_flush i - lastSdFlush s' > 500
                           then (emit SdFlush s')\<lparr>lastSdFlush := i_t_flush2 i\<rparr>
                           else s')
                     else s1)
           in if i_t_print i - lastPrint s2 > 200
              then (say (MsgStatus thrust' impulse' burntime' count') s2)
                   \<lparr>lastPrint := i_t_print2 i\<rparr>
              else s2)"

subsection \<open>End of burn\<close>

definition endBurn :: "inputs \<Rightarrow> state \<Rightarrow> state" where
  "endBurn i s =
     (if \<not> testInProgress s then s
      else
        let s1 = s\<lparr>testInProgress := False, burnEndTime := i_t_end i\<rparr>;
            s2 = s1\<lparr>burntime := real (unat (burnEndTime s1 - burnStartTime s1)) / 1000\<rparr>;
            s3 = digitalWrite False s2;
            s4 = (if sdOpenForWrite s3
                  then (emit SdClose (emit SdFlush s3))\<lparr>sdOpenForWrite := False\<rparr>
                  else s3);
            s5 = say (MsgBurnComplete (burntime s4) (impulse s4) (peakthrust s4)
                        (avgthrust s4) (samplecount s4) (filename s4)) s4
        in say MsgResetHint s5)"

definition THRUST_THRESHOLD :: real where
  "THRUST_THRESHOLD = 0.5"

definition LOW_THRUST_DURATION :: ulong where
  "LOW_THRUST_DURATION = 3000"

definition checkBurnComplete :: "inputs \<Rightarrow> state \<Rightarrow> state" where
  "checkBurnComplete i s =
     (let s1 = (if thrust s < THRUST_THRESHOLD then
                  (if lowThrustStart s = 0 then s\<lparr>lowThrustStart := i_t_low i\<rparr>
                   else if i_t_low i - lowThrustStart s > LOW_THRUST_DURATION
                        then endBurn i s
                        else s)
                else s\<lparr>lowThrustStart := 0\<rparr>)
      in if burntime s1 > 60 then endBurn i (say MsgSafetyTimeout s1) else s1)"

subsection \<open>The control loop\<close>

definition loop :: "inputs \<Rightarrow> state \<Rightarrow> state" where
  "loop i s =
     (let s1 = (if i_switch1 i \<and> \<not> countdownstate s \<and> \<not> testInProgress s then
                  (let s' = delay 50 s
                   in if i_switch2 i
                      then startCountdown i (hxCalibrate i (say MsgSequenceInitiated s'))
                      else s')
                else s);
          s2 = countDown i s1;
          s3 = (if testInProgress s2
                then checkBurnComplete i (acquireData i s2) else s2)
      in delay 10 s3)"

text \<open>
  An execution: \<open>setup()\<close>, then \<open>loop()\<close> once for each element of the input list.
  \<open>final\<close> is the state an execution is in at its end, halted in \<open>setup()\<close> or not.
\<close>

fun run :: "inputs list \<Rightarrow> state \<Rightarrow> state" where
  "run [] s = s"
| "run (i # is) s = run is (loop i s)"

definition execute ::
  "setup_in \<Rightarrow> inputs list \<Rightarrow> string list \<Rightarrow> (halt \<times> state) + state" where
  "execute u is fs =
     (case setup_sketch u (power_on fs) of
        Inl h \<Rightarrow> Inl h
      | Inr s \<Rightarrow> Inr (run is s))"


subsection \<open>The igniter output along a trace\<close>

text \<open>
  \<open>pin_walk\<close> follows the igniter pin through a trace. From \<open>PinLow\<close> a write of HIGH
  leads to \<open>PinRaised\<close>; there the only event allowed is a delay of exactly 2000 ms,
  which leads to \<open>PinHeld\<close>; there the only event allowed is a write of LOW, which
  leads back to \<open>PinLow\<close>. The walk succeeds if it ends in \<open>PinLow\<close>. So
  \<open>pulse_ok\<close> says: every write of HIGH is followed at once by the 2000 ms hold and
  then by a write of LOW; the pin is high over that hold and at no other point of
  the trace. \<open>pin_safe\<close> adds that the pin is low now.
\<close>

datatype pin_phase = PinLow | PinRaised | PinHeld

fun pin_walk :: "pin_phase \<Rightarrow> event list \<Rightarrow> bool" where
  "pin_walk p [] = (p = PinLow)"
| "pin_walk p (e # es) =
     (case p of
        PinLow \<Rightarrow> (if e = DigitalWrite True then pin_walk PinRaised es
                   else pin_walk PinLow es)
      | PinRaised \<Rightarrow> (e = Delay 2000 \<and> pin_walk PinHeld es)
      | PinHeld \<Rightarrow> (e = DigitalWrite False \<and> pin_walk PinLow es))"

definition pulse_ok :: "event list \<Rightarrow> bool" where
  "pulse_ok es = pin_walk PinLow es"


subsection \<open>A concrete bench session\<close>

text \<open>
  Inputs of one session, used to run the sketch on numbers: a board that comes up at
  once with an empty card, a pass of \<open>loop()\<close> in which nothing happens at time 0, a
  pass in which the operator flips the switch at 5000 ms and types the mass \<open>w\<close>, and a
  pass at clock reading \<open>t\<close> with the load cell reading \<open>m\<close> kg (a pass that ignites
  does so at \<open>t\<close> and comes out of the 2000 ms hold at \<open>t + 2000\<close>).
\<close>

definition boot :: setup_in where
  "boot = \<lparr> u_serial_polls = 0, u_hx_start = 0, u_hx_polls = [], u_sd_begin = True,
            u_sd_create = True \<rparr>"

definition quiet :: inputs where
  "quiet = \<lparr> i_switch1 = False, i_switch2 = False, i_enter_polls = 0,
             i_weight_polls = 0, i_weight = 0, i_rawReading = 0, i_measured = 0,
             i_t_start = 0, i_t_count = 0, i_t_count2 = 0, i_t_ignite = 0,
             i_sd_open = True, i_now = 0, i_mass = 0, i_t_flush = 0, i_t_flush2 = 0,
             i_t_print = 0, i_t_print2 = 0, i_t_low = 0, i_t_end = 0 \<rparr>"

definition press :: "ulong \<Rightarrow> real \<Rightarrow> inputs" where
  "press t w = quiet\<lparr> i_switch1 := True, i_switch2 := True, i_weight := w,
                       i_rawReading := 1000, i_measured := w, i_t_start := t,
                       i_t_count := t \<rparr>"

definition tick :: "ulong \<Rightarrow> real \<Rightarrow> inputs" where
  "tick t m = quiet\<lparr> i_t_count := t, i_t_count2 := t, i_t_ignite := t, i_now := t,
                      i_mass := m, i_t_flush := t, i_t_flush2 := t, i_t_print := t,
                      i_t_print2 := t, i_t_low := t, i_t_end := t \<rparr>"

definition fire :: "ulong \<Rightarrow> inputs" where
  "fire t = (tick (t + 2000) 0)\<lparr> i_t_count := t, i_t_count2 := t \<rparr>"

definition countdown15 :: "ulong \<Rightarrow> inputs list" where
  "countdown15 t = map (\<lambda>k. tick (t + k) 0)
     [1000, 2000, 3000, 4000, 5000, 6000, 7000, 8000, 9000, 10000, 11000, 12000,
      13000, 14000] @ [fire (t + 15000)]"

text \<open>The state of a burn in progress with a given thrust and burn time.\<close>

definition burning :: "real \<Rightarrow> real \<Rightarrow> state" where
  "burning th bt = (power_on [])\<lparr> testInProgress := True, hx_ini := True,
                                   thrust := th, burntime := bt \<rparr>"

text \<open>
  A burn at 0.2 N, one second old, after its first check by the burn monitor at
  clock reading \<open>t\<close>.
\<close>

definition low_at :: "ulong \<Rightarrow> state" where
  "low_at t = checkBurnComplete (tick t 0) (burning 0.2 1)"

text \<open>Reading a decimal numeral back, to show that \<open>String_of\<close> loses nothing.\<close>

definition digits_val :: "string \<Rightarrow> nat" where
  "digits_val cs = foldl (\<lambda>a c. 10 * a + (of_char c - 48)) 0 cs"

text \<open>
  The board after \<open>setup()\<close>; a short burn, 1 kg on the cell and then nothing; and the
  landmarks of a trace: the ignition announcement, the igniter going high, and the
  closing line of \<open>endBurn\<close> (``Reset Arduino to run another test.'').
\<close>

definition ready :: state where
  "ready = (case setup_sketch boot (power_on []) of Inr s \<Rightarrow> s | Inl h \<Rightarrow> power_on [])"

definition burn_ticks :: "inputs list" where
  "burn_ticks = [tick 22100 1, tick 23000 1, tick 24000 0, tick 27500 0]"

definition landmarks :: "event list \<Rightarrow> event list" where
  "landmarks es =
     filter (\<lambda>e. e = Say MsgIgnition \<or> e = DigitalWrite True \<or> e = Say MsgResetHint) es"

subsection \<open>A burn session seen from the acquisition engine\<close>

text \<open>
  \<open>acquire\<close> is the sequence of calls of \<open>acquireData\<close> that one burn makes, one per
  pass of \<open>loop()\<close>. What the claims call the accepted samples is read off the inputs
  alone: a tick is accepted when its clock reading differs from the previous one (the
  \<open>dt > 0\<close> guard on an unsigned difference), its thrust is the clamped mass times
  standard gravity, its \<open>dt\<close> the time since the previous accepted tick.
\<close>

fun acquire :: "inputs list \<Rightarrow> state \<Rightarrow> state" where
  "acquire [] s = s"
| "acquire (i # is) s = acquire is (acquireData i s)"

definition tick_thrust :: "inputs \<Rightarrow> real" where
  "tick_thrust i = (if i_mass i < 0 then 0 else i_mass i) * 9.80665"

definition tick_dt :: "ulong \<Rightarrow> inputs \<Rightarrow> real" where
  "tick_dt prev i = real (unat (i_now i - prev)) / 1000"

fun accepted :: "ulong \<Rightarrow> inputs list \<Rightarrow> (real \<times> real) list" where
  "accepted prev [] = []"
| "accepted prev (i # is) =
     (if i_now i = prev then accepted prev is
      else (tick_thrust i, tick_dt prev i) # accepted (i_now i) is)"

text \<open>
  The divisors that the incremental average uses, one per accepted call: the sample
  counter right after \<open>samplecount++\<close>.
\<close>

fun divisors :: "inputs list \<Rightarrow> state \<Rightarrow> ulong list" where
  "divisors [] s = []"
| "divisors (i # is) s =
     (if i_now i = lastsampletime s then divisors is (acquireData i s)
      else samplecount (acquireData i s) # divisors is (acquireData i s))"

text \<open>The \<open>elapsed ms\<close> column of the rows printed to the data file, in trace order.\<close>

fun row_times :: "event list \<Rightarrow> nat list" where
  "row_times [] = []"
| "row_times (e # es) =
     (case e of SdPrintRow t th im av pk bt \<Rightarrow> [unat t] | _ \<Rightarrow> []) @ row_times es"

text \<open>
  What the sketch relies on from \<open>millis()\<close> during a burn: read as time elapsed since
  \<open>burnStartTime\<close>, the clock readings of successive ticks never decrease. That is a
  monotonic clock and a burn shorter than the 4294967296 ms (49.7 days) after which
  the 32-bit difference wraps.
\<close>

fun clock_monotone :: "ulong \<Rightarrow> ulong \<Rightarrow> inputs list \<Rightarrow> bool" where
  "clock_monotone start prev [] = True"
| "clock_monotone start prev (i # is) =
     (unat (prev - start) \<le> unat (i_now i - start) \<and> clock_monotone start (i_now i) is)"

lemmas sketch_defs =
  setup_sketch_def initializeHX711_def initializeSD_def createNewSDfile_def
  loop_def hxCalibrate_def startCountdown_def countDown_def igniteMotor_def
  acquireData_def checkBurnComplete_def endBurn_def fdiv_count_def
  THRUST_THRESHOLD_def LOW_THRUST_DURATION_def
  say_def emit_def delay_def digitalWrite_def waitSerial_def Let_def

lemmas run_defs =
  execute_def power_on_def boot_def quiet_def press_def tick_def fire_def
  countdown15_def
  burning_def probe.simps INT_MAX_def plt_name_def String_of.simps digit_char_def

section \<open>Burn monitor\<close>

lemma endBurn_ends:
  "testInProgress s \<Longrightarrow>
     \<not> testInProgress (endBurn i s) \<and> burnEndTime (endBurn i s) = i_t_end i \<and>
     \<not> e_match_pin (endBurn i s) \<and> \<not> sdOpenForWrite (endBurn i s)"
  by (simp add: endBurn_def Let_def say_def emit_def digitalWrite_def)

lemma endBurn_idle: "\<not> testInProgress s \<Longrightarrow> endBurn i s = s"
  by (simp add: endBurn_def)

text \<open>
  C6. Whatever the thrust, a check made while the burn time exceeds 60.0 s ends the
  burn: the test is no longer in progress, the end time is stamped, the igniter
  output is low and the data file is closed. A burn time of 61.0 s is one such case.
\<close>

theorem safety_timeout_ends_burn:
  assumes "testInProgress s" and "60 < bt"
  shows "\<not> testInProgress (checkBurnComplete i (s\<lparr>thrust := th, burntime := bt\<rparr>)) \<and>
         burnEndTime (checkBurnComplete i (s\<lparr>thrust := th, burntime := bt\<rparr>)) = i_t_end i \<and>
         \<not> e_match_pin (checkBurnComplete i (s\<lparr>thrust := th, burntime := bt\<rparr>)) \<and>
         \<not> sdOpenForWrite (checkBurnComplete i (s\<lparr>thrust := th, burntime := bt\<rparr>))"
  using assms
  apply (simp add: checkBurnComplete_def Let_def)
  apply (simp add: endBurn_def Let_def say_def emit_def digitalWrite_def)
  done

theorem safety_timeout_ends_burn_witness:
  "testInProgress (burning 100 61) \<and> (60::real) < 61 \<and>
   burning 100 61 = (burning 100 61)\<lparr>thrust := 100, burntime := 61\<rparr> \<and>
   \<not> testInProgress (checkBurnComplete (tick 83000 10) (burning 100 61)) \<and>
   burnEndTime (checkBurnComplete (tick 83000 10) (burning 100 61)) = 83000"
proof -
  have a: "testInProgress (burning 100 61)" by (simp add: burning_def)
  have b: "(60::real) < 61" by simp
  have c: "burning 100 61 = (burning 100 61)\<lparr>thrust := 100, burntime := 61\<rparr>"
    by (simp add: burning_def)
  have d: "i_t_end (tick 83000 10) = 83000" by (simp add: tick_def quiet_def)
  from safety_timeout_ends_burn [OF a b, of "tick 83000 10" 100] c d a b
  show ?thesis by simp
qed

text \<open>
  C5 (as amended). While a burn is in progress and below the 60 s timeout, one check
  of the burn monitor does the following. With thrust at or above 0.5 N it resets the
  low-thrust timestamp to 0 (unset) and the burn goes on. With thrust below 0.5 N
  and the timestamp unset it stamps the current clock reading and the burn goes on.
  With thrust below 0.5 N and the timestamp set it ends the burn exactly when
  strictly more than 3000 ms have passed since the stamp.
\<close>

theorem low_thrust_monitor:
  assumes "testInProgress s" and "burntime s \<le> 60"
  shows
    "(0.5 \<le> thrust s \<longrightarrow>
        lowThrustStart (checkBurnComplete i s) = 0 \<and>
        testInProgress (checkBurnComplete i s)) \<and>
     (thrust s < 0.5 \<and> lowThrustStart s = 0 \<longrightarrow>
        lowThrustStart (checkBurnComplete i s) = i_t_low i \<and>
        testInProgress (checkBurnComplete i s)) \<and>
     (thrust s < 0.5 \<and> lowThrustStart s \<noteq> 0 \<longrightarrow>
        lowThrustStart (checkBurnComplete i s) = lowThrustStart s \<and>
        (\<not> testInProgress (checkBurnComplete i s)) =
          (3000 < unat (i_t_low i - lowThrustStart s)))"
proof -
  have w: "(3000 < i_t_low i - lowThrustStart s) =
           (3000 < unat (i_t_low i - lowThrustStart s))"
    by (simp add: word_less_nat_alt)
  from assms show ?thesis
    apply (simp add: checkBurnComplete_def Let_def THRUST_THRESHOLD_def
        LOW_THRUST_DURATION_def w)
    apply (simp add: endBurn_def Let_def say_def emit_def digitalWrite_def)
    done
qed

text \<open>
  Thrust 0.2 N, first seen low at 1000 ms: the check at 4500 ms (3500 ms later) ends
  the burn, the check at 3000 ms (2000 ms later) does not.
\<close>

theorem low_thrust_monitor_witness:
  "testInProgress (low_at 1000) \<and> burntime (low_at 1000) \<le> 60 \<and>
   thrust (low_at 1000) = 0.2 \<and> lowThrustStart (low_at 1000) = 1000 \<and>
   \<not> testInProgress (checkBurnComplete (tick 4500 0) (low_at 1000)) \<and>
   testInProgress (checkBurnComplete (tick 3000 0) (low_at 1000))"
proof -
  have a: "testInProgress (low_at 1000)" and b: "burntime (low_at 1000) \<le> 60"
    and c: "thrust (low_at 1000) = 0.2" and d: "lowThrustStart (low_at 1000) = 1000"
    by (simp_all add: low_at_def sketch_defs run_defs)
  have e: "i_t_low (tick 4500 0) = 4500" "i_t_low (tick 3000 0) = 3000"
    by (simp_all add: tick_def quiet_def)
  from low_thrust_monitor [OF a b, of "tick 4500 0"]
    low_thrust_monitor [OF a b, of "tick 3000 0"] a b c d e
  show ?thesis by simp
qed

text \<open>
  The claim as written fails at the boundary: thrust 0.2 N seen low at 1000 ms and
  still low at 4000 ms has stayed below 0.5 N for 3000 ms, and the burn goes on.
\<close>

theorem low_thrust_3000ms_counterexample:
  "thrust (low_at 1000) = 0.2 \<and> lowThrustStart (low_at 1000) = 1000 \<and>
   i_t_low (tick 4000 0) = 4000 \<and>
   thrust (checkBurnComplete (tick 4000 0) (low_at 1000)) = 0.2 \<and>
   testInProgress (checkBurnComplete (tick 4000 0) (low_at 1000))"
  by (simp add: low_at_def sketch_defs run_defs)

section \<open>File name selection\<close>

lemma digit_char_code: "d < 10 \<Longrightarrow> of_char (digit_char d) = (48 + d :: nat)"
proof -
  assume "d < 10"
  then have "d \<in> {0, 1, 2, 3, 4, 5, 6, 7, 8, 9}" by auto
  then show ?thesis by (auto simp: digit_char_def)
qed

lemma digits_val_String_of: "digits_val (String_of n) = n"
proof (induction n rule: String_of.induct)
  case (1 n)
  show ?case
  proof (cases "n < 10")
    case True
    then show ?thesis
      by (subst String_of.simps) (simp add: digits_val_def digit_char_code)
  next
    case False
    with 1 have ih: "digits_val (String_of (n div 10)) = n div 10" by simp
    have "n mod 10 < 10" by simp
    then have "of_char (digit_char (n mod 10)) = (48 + n mod 10 :: nat)"
      by (rule digit_char_code)
    with ih False show ?thesis
      by (subst String_of.simps) (simp add: digits_val_def)
  qed
qed

lemma plt_name_inj: "plt_name a = plt_name b \<Longrightarrow> a = b"
proof -
  assume "plt_name a = plt_name b"
  then have "String_of a = String_of b" by (simp add: plt_name_def)
  then have "digits_val (String_of a) = digits_val (String_of b)" by simp
  then show ?thesis by (simp add: digits_val_String_of)
qed

lemma taken_names_bound:
  assumes "\<forall>j<k. plt_name j \<in> set fs"
  shows "k \<le> length fs"
proof -
  have "inj_on plt_name {..<k}" by (auto simp: inj_on_def dest: plt_name_inj)
  then have "card (plt_name ` {..<k}) = k" by (simp add: card_image)
  moreover from assms have "plt_name ` {..<k} \<subseteq> set fs" by auto
  then have "card (plt_name ` {..<k}) \<le> card (set fs)" by (simp add: card_mono)
  ultimately show ?thesis using card_length [of fs] by linarith
qed

lemma probe_finds:
  "i \<le> k \<Longrightarrow> k < INT_MAX \<Longrightarrow> plt_name k \<notin> set fs \<Longrightarrow>
   (\<forall>j. i \<le> j \<and> j < k \<longrightarrow> plt_name j \<in> set fs) \<Longrightarrow>
   probe fs i = Inr (plt_name k)"
proof (induction "k - i" arbitrary: i)
  case 0
  then have "i = k" by simp
  with 0 show ?case by (subst probe.simps) simp
next
  case (Suc d)
  then have lt: "i < k" by simp
  with Suc.prems have "plt_name i \<in> set fs" by simp
  moreover from lt Suc.prems have "\<not> INT_MAX \<le> i" by simp
  ultimately have "probe fs i = probe fs (i + 1)" by (subst probe.simps) simp
  moreover have "probe fs (i + 1) = Inr (plt_name k)"
    using Suc lt by (intro Suc.hyps) auto
  ultimately show ?case by simp
qed

lemma free_index_exists:
  "\<exists>k. plt_name k \<notin> set fs \<and> (\<forall>j<k. plt_name j \<in> set fs) \<and> k \<le> length fs"
proof -
  have ex: "\<exists>k. plt_name k \<notin> set fs"
  proof (rule ccontr)
    assume "\<not> ?thesis"
    then have "\<forall>j<Suc (length fs). plt_name j \<in> set fs" by simp
    then have "Suc (length fs) \<le> length fs" by (rule taken_names_bound)
    then show False by simp
  qed
  define k where "k = (LEAST k. plt_name k \<notin> set fs)"
  have 1: "plt_name k \<notin> set fs" unfolding k_def using ex by (rule LeastI_ex)
  have 2: "\<forall>j<k. plt_name j \<in> set fs"
    unfolding k_def using not_less_Least by blast
  from 2 have "k \<le> length fs" by (rule taken_names_bound)
  with 1 2 show ?thesis by blast
qed

text \<open>
  C7. On a card holding fewer than \<open>INT_MAX\<close> files, \<open>createNewSDfile\<close> returns with
  \<open>filename\<close> set to \<open><k>_PLT.csv\<close> for the smallest \<open>k \<ge> 0\<close> whose name the card does
  not have: that name is not on the card, and every smaller index is.
\<close>

theorem createNewSDfile_smallest_unused:
  assumes "length (sd_files s) < INT_MAX"
  shows "\<exists>k s'. createNewSDfile created s = Inr s' \<and> filename s' = plt_name k \<and>
           plt_name k \<notin> set (sd_files s) \<and> (\<forall>j<k. plt_name j \<in> set (sd_files s))"
proof -
  obtain k where k: "plt_name k \<notin> set (sd_files s)"
      "\<forall>j<k. plt_name j \<in> set (sd_files s)" "k \<le> length (sd_files s)"
    using free_index_exists by blast
  with assms have "probe (sd_files s) 0 = Inr (plt_name k)"
    by (intro probe_finds) auto
  then have "\<exists>s'. createNewSDfile created s = Inr s' \<and> filename s' = plt_name k"
    by (simp add: createNewSDfile_def Let_def say_def emit_def)
  with k show ?thesis by blast
qed

text \<open>With \<open>0_PLT.csv\<close> and \<open>1_PLT.csv\<close> on the card the next file is \<open>2_PLT.csv\<close>.\<close>

theorem createNewSDfile_smallest_unused_witness:
  "length (sd_files (power_on [''0_PLT.csv'', ''1_PLT.csv''])) < INT_MAX \<and>
   (case createNewSDfile True (power_on [''0_PLT.csv'', ''1_PLT.csv'']) of
      Inr s' \<Rightarrow> filename s' = ''2_PLT.csv'' \<and> filename s' = plt_name 2
    | Inl h \<Rightarrow> False)"
  using createNewSDfile_smallest_unused [of "power_on [''0_PLT.csv'', ''1_PLT.csv'']" True]
  by (simp add: sketch_defs run_defs)

section \<open>Sequencer\<close>

text \<open>
  \<open>hxCalibrate\<close> notices a mass that is not positive, prints the invalid-weight line
  and returns without setting a scale factor. It returns nothing, so \<open>loop()\<close> cannot
  tell and goes on to \<open>startCountdown()\<close>: the pass that abandoned calibration ends
  with the countdown running.
\<close>

lemma abandoned_calibration_not_propagated:
  assumes "i_switch1 i" and "i_switch2 i" and "\<not> countdownstate s"
    and "\<not> testInProgress s" and "hx_ini s" and "i_weight i \<le> 0"
  shows "Say MsgInvalidWeight \<in> set (trace (loop i s)) \<and>
         hx_scale (loop i s) = hx_scale s \<and>
         Say MsgCountdownStart \<in> set (trace (loop i s)) \<and>
         countdownstate (loop i s) \<and> 14 \<le> countdownTime (loop i s) \<and>
         \<not> testInProgress (loop i s)"
  using assms
  by (simp add: loop_def hxCalibrate_def startCountdown_def countDown_def Let_def
      say_def emit_def delay_def waitSerial_def)

text \<open>
  C1. The sketch does not keep the sequencer in Pre-Ignition after an invalid
  reference mass. On a freshly booted bench the operator flips the switch and types
  0: the invalid-weight line is printed and the scale factor stays at its power-on
  value 1, yet the countdown is started, and fifteen seconds later the igniter is
  driven high and the test is in progress on an uncalibrated load cell.
\<close>

theorem invalid_weight_still_ignites:
  "i_weight (press 5000 0) \<le> 0 \<and>
   (case execute boot (press 5000 0 # countdown15 5000) [] of
      Inr s \<Rightarrow> Say MsgInvalidWeight \<in> set (trace s) \<and>
               Say MsgCountdownStart \<in> set (trace s) \<and>
               landmarks (trace s) = [Say MsgIgnition, DigitalWrite True] \<and>
               hx_scale s = 1 \<and> testInProgress s
    | Inl h \<Rightarrow> False)"
  by (simp add: sketch_defs run_defs landmarks_def)

text \<open>
  C3. The sketch does not hold the state reached by \<open>endBurn\<close>: after a complete
  test (calibration, countdown, ignition, burn, end of burn) a second press of the
  switch, with no reset in between, runs calibration and countdown again and fires
  the igniter a second time.
\<close>

theorem second_ignition_without_reset:
  "(case execute boot (press 5000 0.5 # countdown15 5000 @ burn_ticks @
                       press 40000 0.5 # countdown15 40000) [] of
      Inr s \<Rightarrow> landmarks (trace s) =
                 [Say MsgIgnition, DigitalWrite True, Say MsgResetHint,
                  Say MsgIgnition, DigitalWrite True, Say MsgResetHint]
    | Inl h \<Rightarrow> False)"
  by (simp add: sketch_defs run_defs burn_ticks_def landmarks_def)

section \<open>Igniter output\<close>



lemma pulse_ok_delays [simp]: "pulse_ok (replicate n (Delay d) @ ys) = pulse_ok ys"
  by (induction n) (simp_all add: pulse_ok_def)

lemma pulse_ok_Cons [simp]:
  "e \<noteq> DigitalWrite True \<Longrightarrow> pulse_ok (e # es) = pulse_ok es"
  by (simp add: pulse_ok_def)

lemma pulse_ok_Nil [simp]: "pulse_ok []"
  by (simp add: pulse_ok_def)

lemma pulse_ok_pulse [simp]:
  "pulse_ok (DigitalWrite True # Delay 2000 # DigitalWrite False # es) = pulse_ok es"
  by (simp add: pulse_ok_def)


















section \<open>Acquisition engine\<close>

text \<open>
  While a burn is in progress a pass of \<open>loop()\<close> is one call of \<open>acquireData\<close>, one
  of \<open>checkBurnComplete\<close> and the 10 ms delay; the burn monitor leaves the accumulators,
  the sample times and the rows of the data file alone (\<open>checkBurnComplete_frame\<close>
  below). So the accumulators of a burn are those of \<open>acquire\<close>.
\<close>

lemma loop_while_burning:
  "testInProgress s \<Longrightarrow> \<not> countdownstate s \<Longrightarrow>
   loop i s = delay 10 (checkBurnComplete i (acquireData i s))"
  by (simp add: loop_def countDown_def)

lemma acquireData_skip: "i_now i = lastsampletime s \<Longrightarrow> acquireData i s = s"
  by (simp add: acquireData_def)

lemma accepted_dt:
  assumes "a \<noteq> (b::ulong)"
  shows "0 < real (unat (a - b))"
proof -
  from assms have "a - b \<noteq> 0" by simp
  then have "0 < unat (a - b)" by (simp add: unat_gt_0)
  then show ?thesis by (simp only: of_nat_0_less_iff)
qed

lemma acquireData_accept:
  assumes "i_now i \<noteq> lastsampletime s"
  shows "\<not> real (unat (i_now i - lastsampletime s)) / 1000 \<le> 0"
  using accepted_dt [OF assms] by (simp add: not_le)

lemma acquireData_fields:
  assumes "i_now i \<noteq> lastsampletime s"
  shows "thrust (acquireData i s) = tick_thrust i"
    and "impulse (acquireData i s) = impulse s + tick_thrust i * tick_dt (lastsampletime s) i"
    and "samplecount (acquireData i s) = samplecount s + 1"
    and "lastsampletime (acquireData i s) = i_now i"
    and "burnStartTime (acquireData i s) = burnStartTime s"
    and "sdOpenForWrite (acquireData i s) = sdOpenForWrite s"
    and "avgthrust (acquireData i s) =
           (case avgthrust s of None \<Rightarrow> None
            | Some a \<Rightarrow> (case fdiv_count (tick_thrust i - a) (samplecount s + 1) of
                          None \<Rightarrow> None | Some q \<Rightarrow> Some (a + q)))"
  using acquireData_accept [OF assms]
  by (simp_all add: acquireData_def Let_def tick_thrust_def tick_dt_def say_def emit_def
      split: option.splits)

lemma row_times_append: "row_times (xs @ ys) = row_times xs @ row_times ys"
  by (induction xs) simp_all

lemma acquireData_rows:
  assumes "i_now i \<noteq> lastsampletime s"
  shows "row_times (trace (acquireData i s)) = row_times (trace s) @
           (if sdOpenForWrite s then [unat (i_now i - burnStartTime s)] else [])"
  using acquireData_accept [OF assms]
  by (simp add: acquireData_def Let_def say_def emit_def row_times_append)


lemma fold_impulse:
  "impulse (acquire is s) =
     impulse s + (\<Sum>(th, dt) \<leftarrow> accepted (lastsampletime s) is. th * dt)"
proof (induction "is" arbitrary: s)
  case Nil
  show ?case by simp
next
  case (Cons i "is")
  show ?case
  proof (cases "i_now i = lastsampletime s")
    case True
    then show ?thesis using Cons [of s] by (simp add: acquireData_skip)
  next
    case False
    then show ?thesis
      using Cons [of "acquireData i s"] by (simp add: acquireData_fields)
  qed
qed

lemma tick_thrust_nonneg: "0 \<le> tick_thrust i"
  by (simp add: tick_thrust_def)

lemma impulse_step: "impulse s \<le> impulse (acquireData i s)"
proof (cases "i_now i = lastsampletime s")
  case True
  then show ?thesis by (simp add: acquireData_skip)
next
  case False
  have "0 \<le> tick_dt (lastsampletime s) i"
    unfolding tick_dt_def by (intro divide_nonneg_nonneg of_nat_0_le_iff) simp
  then have "0 \<le> tick_thrust i * tick_dt (lastsampletime s) i"
    by (intro mult_nonneg_nonneg tick_thrust_nonneg)
  with False show ?thesis by (simp add: acquireData_fields)
qed

lemma igniteMotor_resets:
  "impulse (igniteMotor j s) = 0" "lastsampletime (igniteMotor j s) = i_t_ignite j"
  "burnStartTime (igniteMotor j s) = i_t_ignite j" "samplecount (igniteMotor j s) = 0"
  "avgthrust (igniteMotor j s) = Some 0" "testInProgress (igniteMotor j s)"
  by (simp_all add: igniteMotor_def Let_def say_def emit_def digitalWrite_def delay_def)

lemma checkBurnComplete_frame:
  "impulse (checkBurnComplete i s) = impulse s"
  "avgthrust (checkBurnComplete i s) = avgthrust s"
  "samplecount (checkBurnComplete i s) = samplecount s"
  "lastsampletime (checkBurnComplete i s) = lastsampletime s"
  "burnStartTime (checkBurnComplete i s) = burnStartTime s"
  "row_times (trace (checkBurnComplete i s)) = row_times (trace s)"
  by (simp_all add: checkBurnComplete_def endBurn_def Let_def say_def emit_def
      digitalWrite_def row_times_append)

text \<open>
  C4. After any sequence of acquisition ticks following ignition, \<open>impulse\<close> is the sum
  of \<open>thrust * dt\<close> over the accepted ticks (from any other state: that sum added to
  the impulse it started with). Thrust is never negative, so no call of
  \<open>acquireData\<close> lowers the impulse; the burn monitor that runs between two calls
  leaves it alone.
\<close>

theorem impulse_is_running_sum:
  "impulse (acquire is (igniteMotor j s)) =
     (\<Sum>(th, dt) \<leftarrow> accepted (i_t_ignite j) is. th * dt) \<and>
   impulse (acquire is s) =
     impulse s + (\<Sum>(th, dt) \<leftarrow> accepted (lastsampletime s) is. th * dt) \<and>
   0 \<le> tick_thrust i \<and>
   impulse s \<le> impulse (acquireData i s) \<and>
   impulse (checkBurnComplete i s) = impulse s"
  using fold_impulse [of "is" "igniteMotor j s"]
  by (simp add: fold_impulse igniteMotor_resets tick_thrust_nonneg impulse_step
      checkBurnComplete_frame)


lemma unat_diff_strict:
  assumes "unat (p - start) \<le> unat (n - start)" and "n \<noteq> (p::ulong)"
  shows "unat (p - start) < unat (n - start)"
proof -
  from assms(2) have "n - start \<noteq> p - start" by simp
  then have "unat (n - start) \<noteq> unat (p - start)" by (simp add: word_unat_eq_iff)
  with assms(1) show ?thesis by simp
qed

lemma accepted_bound:
  "n \<le> unat (p - start) \<Longrightarrow> clock_monotone start p is \<Longrightarrow>
   n + length (accepted p is) < 2 ^ 32"
proof (induction "is" arbitrary: n p)
  case Nil
  have "unat (p - start) < 2 ^ LENGTH(32)" by (rule unsigned_less)
  then have "unat (p - start) < 2 ^ 32" by simp
  with Nil show ?case by simp
next
  case (Cons i "is")
  show ?case
  proof (cases "i_now i = p")
    case True
    with Cons.prems Cons.IH [of n p] show ?thesis by simp
  next
    case False
    from Cons.prems have le: "unat (p - start) \<le> unat (i_now i - start)"
      and mono: "clock_monotone start (i_now i) is" by simp_all
    from unat_diff_strict [OF le False] Cons.prems(1)
    have "Suc n \<le> unat (i_now i - start)" by simp
    from Cons.IH [OF this mono] False show ?thesis by simp
  qed
qed

lemma unat_count_Suc:
  assumes "unat (c::ulong) = n" and "Suc n < 2 ^ 32"
  shows "unat (c + 1) = Suc n" and "c + 1 \<noteq> 0"
proof -
  have "unat c + unat (1::ulong) < 2 ^ LENGTH(32)" using assms by simp
  then have "unat (c + 1) = unat c + unat (1::ulong)" by (simp only: unat_add_lem)
  with assms show a: "unat (c + 1) = Suc n" by simp
  show "c + 1 \<noteq> 0"
  proof
    assume "c + 1 = 0"
    with a show False by simp
  qed
qed

lemma divisors_count:
  "unat (samplecount s) = n \<Longrightarrow>
   n + length (accepted (lastsampletime s) is) < 2 ^ 32 \<Longrightarrow>
   map unat (divisors is s) =
     [Suc n ..< Suc (n + length (accepted (lastsampletime s) is))]"
proof (induction "is" arbitrary: s n)
  case Nil
  show ?case by simp
next
  case (Cons i "is")
  show ?case
  proof (cases "i_now i = lastsampletime s")
    case True
    with Cons.prems Cons.IH [of s n] show ?thesis by (simp add: acquireData_skip)
  next
    case False
    let ?s = "acquireData i s"
    from Cons.prems False have lt: "Suc n < 2 ^ 32" by simp
    from unat_count_Suc [OF Cons.prems(1) lt] False
    have c: "unat (samplecount ?s) = Suc n" by (simp add: acquireData_fields)
    have l: "lastsampletime ?s = i_now i" using False by (simp add: acquireData_fields)
    from Cons.prems False
    have b: "Suc n + length (accepted (lastsampletime ?s) is) < 2 ^ 32" by (simp add: l)
    let ?N = "length (accepted (i_now i) is)"
    from Cons.IH [OF c b]
    have ih: "map unat (divisors is ?s) = [Suc (Suc n) ..< Suc (Suc n + ?N)]"
      by (simp only: l)
    have lhs: "divisors (i # is) s = samplecount ?s # divisors is ?s"
      using False by simp
    have len: "length (accepted (lastsampletime s) (i # is)) = Suc ?N"
      using False by simp
    have "[Suc n ..< Suc (n + Suc ?N)] = Suc n # [Suc (Suc n) ..< Suc (Suc n + ?N)]"
      by (subst upt_conv_Cons) simp_all
    then show ?thesis by (simp only: lhs len list.map c ih)
  qed
qed

lemma avg_invariant:
  "avgthrust s = Some a \<Longrightarrow> unat (samplecount s) = n \<Longrightarrow>
   n + length (accepted (lastsampletime s) is) < 2 ^ 32 \<Longrightarrow>
   \<exists>a'. avgthrust (acquire is s) = Some a' \<and>
        real (n + length (accepted (lastsampletime s) is)) * a' =
          real n * a + sum_list (map fst (accepted (lastsampletime s) is))"
proof (induction "is" arbitrary: s a n)
  case Nil
  then show ?case by simp
next
  case (Cons i "is")
  show ?case
  proof (cases "i_now i = lastsampletime s")
    case True
    with Cons.prems Cons.IH [of s a n] show ?thesis by (simp add: acquireData_skip)
  next
    case False
    let ?s = "acquireData i s"
    let ?a = "a + (tick_thrust i - a) / real (Suc n)"
    from Cons.prems False have lt: "Suc n < 2 ^ 32" by simp
    note cnt = unat_count_Suc [OF Cons.prems(2) lt]
    have avg: "avgthrust ?s = Some ?a"
      using False Cons.prems(1) cnt by (simp add: acquireData_fields fdiv_count_def)
    have c: "unat (samplecount ?s) = Suc n" using False cnt by (simp add: acquireData_fields)
    have l: "lastsampletime ?s = i_now i" using False by (simp add: acquireData_fields)
    from Cons.prems False
    have b: "Suc n + length (accepted (lastsampletime ?s) is) < 2 ^ 32" by (simp add: l)
    from Cons.IH [OF avg c b] obtain a' where
      a': "avgthrust (acquire is ?s) = Some a'"
      "real (Suc n + length (accepted (i_now i) is)) * a' =
         real (Suc n) * ?a + sum_list (map fst (accepted (i_now i) is))"
      by (auto simp: l)
    have "real (Suc n) * ?a = real n * a + tick_thrust i"
      by (simp add: field_simps)
    with a' False show ?thesis by simp
  qed
qed


lemma rows_sorted:
  "burnStartTime s = start \<Longrightarrow> clock_monotone start (lastsampletime s) is \<Longrightarrow>
   \<exists>ts. row_times (trace (acquire is s)) = row_times (trace s) @ ts \<and>
        sorted_wrt (<) ts \<and> (\<forall>t\<in>set ts. unat (lastsampletime s - start) < t)"
proof (induction "is" arbitrary: s)
  case Nil
  show ?case by simp
next
  case (Cons i "is")
  show ?case
  proof (cases "i_now i = lastsampletime s")
    case True
    with Cons.prems Cons.IH [of s] show ?thesis by (simp add: acquireData_skip)
  next
    case False
    let ?s = "acquireData i s"
    let ?e = "unat (i_now i - start)"
    from Cons.prems have le: "unat (lastsampletime s - start) \<le> ?e"
      and mono: "clock_monotone start (i_now i) is" by simp_all
    note lt = unat_diff_strict [OF le False]
    have b: "burnStartTime ?s = start" and l: "lastsampletime ?s = i_now i"
      using False Cons.prems(1) by (simp_all add: acquireData_fields)
    from mono have "clock_monotone start (lastsampletime ?s) is" by (simp only: l)
    from Cons.IH [OF b this] obtain ts where
      ts: "row_times (trace (acquire is ?s)) = row_times (trace ?s) @ ts"
      "sorted_wrt (<) ts" "\<forall>t\<in>set ts. ?e < t"
      by (auto simp: l)
    let ?new = "(if sdOpenForWrite s then [?e] else []) @ ts"
    have "row_times (trace (acquire (i # is) s)) = row_times (trace s) @ ?new"
      using ts(1) False Cons.prems(1) by (simp add: acquireData_rows)
    moreover have "sorted_wrt (<) ?new" using ts(2,3) by simp
    moreover have "\<forall>t\<in>set ?new. unat (lastsampletime s - start) < t"
      using ts(3) lt by auto
    ultimately show ?thesis by blast
  qed
qed

text \<open>
  C8. After the ticks of a burn that gave \<open>N \<ge> 1\<close> accepted samples, \<open>avgthrust\<close> is
  the sum of their thrusts divided by \<open>N\<close>. \<open>N\<close> stays below the 4294967296 that the
  32-bit sample counter can count.
\<close>

theorem running_average_is_mean:
  assumes "accepted (i_t_ignite j) is = smp" and "smp \<noteq> []" and "length smp < 2 ^ 32"
  shows "avgthrust (acquire is (igniteMotor j s)) =
           Some (sum_list (map fst smp) / real (length smp))"
proof -
  let ?s = "igniteMotor j s"
  have a: "avgthrust ?s = Some 0" and c: "unat (samplecount ?s) = 0"
    and l: "lastsampletime ?s = i_t_ignite j"
    by (simp_all add: igniteMotor_resets)
  from assms have b: "0 + length (accepted (lastsampletime ?s) is) < 2 ^ 32"
    by (simp add: l)
  from avg_invariant [OF a c b] obtain a' where
    a': "avgthrust (acquire is ?s) = Some a'"
    "real (length smp) * a' = sum_list (map fst smp)"
    using assms(1) by (auto simp: l)
  from assms(2) have "real (length smp) \<noteq> 0" by simp
  with a'(2) have "a' = sum_list (map fst smp) / real (length smp)"
    by (simp add: field_simps)
  with a'(1) show ?thesis by simp
qed

text \<open>
  Four samples, 1 kg on the cell for the first two: the average is a quarter of
  twice 9.80665 N.
\<close>

theorem running_average_is_mean_witness:
  "accepted (i_t_ignite (fire 20000)) burn_ticks =
     [(9.80665, 0.1), (9.80665, 0.9), (0, 1), (0, 3.5)] \<and>
   avgthrust (acquire burn_ticks (igniteMotor (fire 20000) ready)) =
     Some ((9.80665 + 9.80665 + 0 + 0) / 4)"
proof -
  have a: "accepted (i_t_ignite (fire 20000)) burn_ticks =
      [(9.80665, 0.1), (9.80665, 0.9), (0, 1), (0, 3.5)]"
    by (simp add: burn_ticks_def fire_def tick_def quiet_def tick_thrust_def tick_dt_def)
  have b: "[(9.80665, 0.1), (9.80665, 0.9), (0, 1), (0, 3.5)] \<noteq> ([] :: (real \<times> real) list)"
    by simp
  have c: "length [(9.80665, 0.1), (9.80665, 0.9), (0, 1), (0, 3.5 :: real)] < (2::nat) ^ 32"
    by simp
  from running_average_is_mean [OF a b c, of ready] a show ?thesis by simp
qed

text \<open>
  C10. With a clock that does not run backwards, the divisor of the incremental
  average at the k-th accepted tick since ignition is k: the counter is incremented
  before the division, every divisor is at least 1, and the average never becomes a
  non-finite float.
\<close>

theorem average_divisor_never_zero:
  assumes "clock_monotone (i_t_ignite j) (i_t_ignite j) is"
  shows "map unat (divisors is (igniteMotor j s)) =
           [1 ..< Suc (length (accepted (i_t_ignite j) is))] \<and>
         (\<forall>d\<in>set (divisors is (igniteMotor j s)). d \<noteq> 0 \<and> 1 \<le> unat d) \<and>
         avgthrust (acquire is (igniteMotor j s)) \<noteq> None"
proof -
  let ?s = "igniteMotor j s"
  have a: "avgthrust ?s = Some 0" and c: "unat (samplecount ?s) = 0"
    and l: "lastsampletime ?s = i_t_ignite j"
    by (simp_all add: igniteMotor_resets)
  have "0 \<le> unat (i_t_ignite j - i_t_ignite j)" by simp
  from accepted_bound [OF this assms]
  have b: "0 + length (accepted (lastsampletime ?s) is) < 2 ^ 32" by (simp add: l)
  from divisors_count [OF c b]
  have d: "map unat (divisors is ?s) = [1 ..< Suc (length (accepted (i_t_ignite j) is))]"
    by (simp add: l)
  have "\<forall>d\<in>set (divisors is ?s). d \<noteq> 0 \<and> 1 \<le> unat d"
  proof
    fix x assume "x \<in> set (divisors is ?s)"
    then have "unat x \<in> set (map unat (divisors is ?s))" by simp
    then have "1 \<le> unat x" by (simp only: d set_upt atLeastLessThan_iff)
    then show "x \<noteq> 0 \<and> 1 \<le> unat x" by auto
  qed
  moreover from avg_invariant [OF a c b] have "avgthrust (acquire is ?s) \<noteq> None" by auto
  ultimately show ?thesis using d by blast
qed

theorem average_divisor_never_zero_witness:
  "clock_monotone (i_t_ignite (fire 20000)) (i_t_ignite (fire 20000)) burn_ticks \<and>
   map unat (divisors burn_ticks (igniteMotor (fire 20000) ready)) = [1, 2, 3, 4] \<and>
   avgthrust (acquire burn_ticks (igniteMotor (fire 20000) ready)) \<noteq> None"
proof -
  have a: "clock_monotone (i_t_ignite (fire 20000)) (i_t_ignite (fire 20000)) burn_ticks"
    by (simp add: burn_ticks_def fire_def tick_def quiet_def)
  have b: "length (accepted (i_t_ignite (fire 20000)) burn_ticks) = 4"
    by (simp add: burn_ticks_def fire_def tick_def quiet_def)
  have c: "[1 ..< Suc 4] = [1, 2, 3, 4::nat]" by (simp add: upt_conv_Cons)
  from average_divisor_never_zero [OF a, of ready] a b c show ?thesis by simp
qed

text \<open>
  C9. With a clock that does not run backwards, the rows that a burn appends to the
  data file carry strictly increasing elapsed times; and a tick whose \<open>dt\<close> is not
  positive returns the state as it found it, so it writes nothing.
\<close>

theorem rows_strictly_increasing:
  assumes "clock_monotone (i_t_ignite j) (i_t_ignite j) is"
  shows "(\<exists>ts. row_times (trace (acquire is (igniteMotor j s))) =
                row_times (trace (igniteMotor j s)) @ ts \<and> sorted_wrt (<) ts) \<and>
         (real (unat (i_now i - lastsampletime s')) / 1000 \<le> 0 \<longrightarrow> acquireData i s' = s')"
proof -
  let ?s = "igniteMotor j s"
  have b: "burnStartTime ?s = i_t_ignite j" and l: "lastsampletime ?s = i_t_ignite j"
    by (simp_all add: igniteMotor_resets)
  from assms have "clock_monotone (i_t_ignite j) (lastsampletime ?s) is" by (simp only: l)
  from rows_sorted [OF b this] have "\<exists>ts. row_times (trace (acquire is ?s)) =
      row_times (trace ?s) @ ts \<and> sorted_wrt (<) ts" by blast
  moreover have "real (unat (i_now i - lastsampletime s')) / 1000 \<le> 0 \<longrightarrow>
      acquireData i s' = s'"
    by (simp add: acquireData_def)
  ultimately show ?thesis by blast
qed

theorem rows_strictly_increasing_witness:
  "clock_monotone (i_t_ignite (fire 20000)) (i_t_ignite (fire 20000)) burn_ticks \<and>
   row_times (trace (igniteMotor (fire 20000) ready)) = [] \<and>
   row_times (trace (acquire burn_ticks (igniteMotor (fire 20000) ready))) =
     [100, 1000, 2000, 5500] \<and>
   sorted_wrt (<) (row_times (trace (acquire burn_ticks (igniteMotor (fire 20000) ready)))) \<and>
   acquireData (tick 27500 1) (acquire burn_ticks (igniteMotor (fire 20000) ready)) =
     acquire burn_ticks (igniteMotor (fire 20000) ready)"
proof -
  let ?s = "acquire burn_ticks (igniteMotor (fire 20000) ready)"
  have a: "clock_monotone (i_t_ignite (fire 20000)) (i_t_ignite (fire 20000)) burn_ticks"
    by (simp add: burn_ticks_def fire_def tick_def quiet_def)
  have r0: "row_times (trace (igniteMotor (fire 20000) ready)) = []"
    by (simp add: ready_def sketch_defs run_defs)
  have r: "row_times (trace ?s) = [100, 1000, 2000, 5500]"
    by (simp add: burn_ticks_def ready_def sketch_defs run_defs)
  have l: "real (unat (i_now (tick 27500 1) - lastsampletime ?s)) / 1000 \<le> 0"
    by (simp add: burn_ticks_def ready_def sketch_defs run_defs)
  from rows_strictly_increasing [OF a, of ready "tick 27500 1" ?s] l
  have "acquireData (tick 27500 1) ?s = ?s" by blast
  moreover from rows_strictly_increasing [OF a, of ready] r0 r
  have "sorted_wrt (<) (row_times (trace ?s))" by auto
  ultimately show ?thesis using a r0 r by simp
qed

end
